theory Spec2Isabelle
  imports Main "HOL-Library.Sublist"
begin

section \<open>Strings\<close>

text \<open>
  A Python \<open>str\<close> is modelled as a \<open>string\<close>, one \<open>char\<close> per code point; the model
  covers the code points below 256 (the Latin-1 range), on which \<open>str.lower\<close>,
  \<open>str.isspace\<close> and \<open>str.isalnum\<close> stay inside the range.
\<close>

definition isspace :: "char \<Rightarrow> bool" where
  \<comment> \<open>\<open>str.isspace\<close>, also the class \<open>\s\<close> of \<open>re\<close> and the separators of \<open>str.split()\<close>
      and \<open>str.strip()\<close>: TAB..CR, FS..US, space, NEL, NBSP.\<close>
  "isspace c = (let n = (of_char c :: nat) in
     (9 \<le> n \<and> n \<le> 13) \<or> (28 \<le> n \<and> n \<le> 32) \<or> n = 133 \<or> n = 160)"

definition lower_char :: "char \<Rightarrow> char" where
  \<comment> \<open>\<open>A..Z\<close> and the capital letters \<open>U+00C0..U+00DE\<close> (without the sign \<open>U+00D7\<close>)
      move 32 code points up.\<close>
  "lower_char c = (let n = (of_char c :: nat) in
     if (65 \<le> n \<and> n \<le> 90) \<or> (192 \<le> n \<and> n \<le> 222 \<and> n \<noteq> 215)
     then char_of (n + 32) else c)"

definition lower :: "string \<Rightarrow> string" where
  "lower s = map lower_char s"

definition lstrip :: "string \<Rightarrow> string" where
  "lstrip s = dropWhile isspace s"

definition rstrip :: "string \<Rightarrow> string" where
  "rstrip s = rev (dropWhile isspace (rev s))"

definition strip :: "string \<Rightarrow> string" where
  "strip s = rstrip (lstrip s)"

fun split_acc :: "string \<Rightarrow> string \<Rightarrow> string list" where
  "split_acc w [] = (if w = [] then [] else [w])"
| "split_acc w (c # cs) =
     (if isspace c then (if w = [] then split_acc [] cs else w # split_acc [] cs)
      else split_acc (w @ [c]) cs)"

definition split :: "string \<Rightarrow> string list" where
  \<comment> \<open>\<open>s.split()\<close>: the maximal runs of non-whitespace characters, \<open>w\<close> being the run
      read so far.\<close>
  "split s = split_acc [] s"

fun join :: "string \<Rightarrow> string list \<Rightarrow> string" where
  "join sep [] = []"
| "join sep [w] = w"
| "join sep (w # v # ws) = w @ sep @ join sep (v # ws)"

fun split_on :: "char \<Rightarrow> string \<Rightarrow> string \<Rightarrow> string list" where
  \<comment> \<open>\<open>s.split(sep)\<close> for a one-character separator: empty fields are kept.\<close>
  "split_on sep w [] = [w]"
| "split_on sep w (c # cs) =
     (if c = sep then w # split_on sep [] cs else split_on sep (w @ [c]) cs)"

fun contains :: "string \<Rightarrow> string \<Rightarrow> bool" where
  \<comment> \<open>\<open>contains w s\<close> is Python's \<open>w in s\<close> on strings.\<close>
  "contains w [] = (w = [])"
| "contains w (c # cs) = (prefix w (c # cs) \<or> contains w cs)"

section \<open>The topic filter\<close>

definition math_terms :: "string list" where
  "math_terms = [''matrix'', ''vector'', ''equation'', ''system'']"

definition filter_step :: "string \<Rightarrow> string list \<Rightarrow> string \<Rightarrow> string list \<Rightarrow> string list" where
  \<comment> \<open>The body of the loop over the questions; \<open>filtered\<close> is the list built so far.\<close>
  "filter_step topic topic_words question filtered =
     (let question_lower = lower question;
          filtered1 = (if list_ex (\<lambda>word. contains word question_lower) topic_words
                       then filtered @ [question] else filtered)
      in if contains ''algebra'' (lower topic)
            \<and> list_ex (\<lambda>term. contains term question_lower) math_terms
         then (if question \<notin> set filtered1 then filtered1 @ [question] else filtered1)
         else filtered1)"

definition filter_by_topic :: "string list \<Rightarrow> string \<Rightarrow> string list" where
  "filter_by_topic questions topic =
     (if topic = [] then questions
      else let topic_words = split (lower topic)
           in fold (filter_step topic topic_words) questions [])"

definition token_rule :: "string \<Rightarrow> string \<Rightarrow> bool" where
  \<comment> \<open>Rule (a): a whitespace-split lowercase token of the topic occurs in the lowercased
      question.\<close>
  "token_rule topic question =
     list_ex (\<lambda>word. contains word (lower question)) (split (lower topic))"

definition algebra_rule :: "string \<Rightarrow> string \<Rightarrow> bool" where
  \<comment> \<open>Rule (b): the lowercased topic contains \<open>algebra\<close> and the lowercased question one
      of the four terms.\<close>
  "algebra_rule topic question =
     (contains ''algebra'' (lower topic)
      \<and> list_ex (\<lambda>term. contains term (lower question)) math_terms)"

section \<open>Regular expressions\<close>

text \<open>
  The patterns of the extractor are sequences of items over character classes: one
  character, a greedy star, a greedy plus, a greedy option, and the end-of-line
  assertion. \<open>rmatch\<close> is the backtracking matcher of \<open>re\<close> started at position 0:
  it tries the longer repetition first and gives the rest of the string after the
  first match found, or \<open>None\<close> when no way of matching exists.
\<close>

datatype rx =
    One "char \<Rightarrow> bool"
  | Star "char \<Rightarrow> bool"
  | Plus "char \<Rightarrow> bool"
  | Opt "char \<Rightarrow> bool"
  | Eol

fun rmatch :: "rx list \<Rightarrow> string \<Rightarrow> string option" where
  "rmatch [] s = Some s"
| "rmatch (One p # rs) [] = None"
| "rmatch (One p # rs) (c # cs) = (if p c then rmatch rs cs else None)"
| "rmatch (Star p # rs) [] = rmatch rs []"
| "rmatch (Star p # rs) (c # cs) =
     (if p c then (case rmatch (Star p # rs) cs of
                     Some r \<Rightarrow> Some r
                   | None \<Rightarrow> rmatch rs (c # cs))
      else rmatch rs (c # cs))"
| "rmatch (Plus p # rs) [] = None"
| "rmatch (Plus p # rs) (c # cs) = (if p c then rmatch (Star p # rs) cs else None)"
| "rmatch (Opt p # rs) [] = rmatch rs []"
| "rmatch (Opt p # rs) (c # cs) =
     (if p c then (case rmatch rs cs of
                     Some r \<Rightarrow> Some r
                   | None \<Rightarrow> rmatch rs (c # cs))
      else rmatch rs (c # cs))"
| "rmatch (Eol # rs) s =
     (case s of [] \<Rightarrow> rmatch rs s
      | c # cs \<Rightarrow> if c = CHR 0x0A then rmatch rs s else None)"

definition re_match :: "rx list \<Rightarrow> string \<Rightarrow> bool" where
  \<comment> \<open>\<open>re.match(pattern, line, re.MULTILINE | re.IGNORECASE)\<close> as a truth value; the
      leading \<open>^\<close> of every pattern holds at position 0.\<close>
  "re_match pattern line = (rmatch pattern line \<noteq> None)"

definition re_sub :: "rx list \<Rightarrow> string \<Rightarrow> string" where
  \<comment> \<open>\<open>re.sub(prefix, '', question, flags=re.IGNORECASE)\<close> for a pattern that starts
      with \<open>^\<close>: without \<open>re.MULTILINE\<close> the only match is the one at position 0.\<close>
  "re_sub pfx question = (case rmatch pfx question of None \<Rightarrow> question | Some r \<Rightarrow> r)"

definition digit :: "char \<Rightarrow> bool" where
  \<comment> \<open>\<open>\d\<close>\<close>
  "digit c = (let n = (of_char c :: nat) in 48 \<le> n \<and> n \<le> 57)"

definition letter :: "char \<Rightarrow> bool" where
  \<comment> \<open>\<open>[A-Z]\<close> under \<open>re.IGNORECASE\<close>\<close>
  "letter c = (let n = (of_char c :: nat) in (65 \<le> n \<and> n \<le> 90) \<or> (97 \<le> n \<and> n \<le> 122))"

definition dot :: "char \<Rightarrow> bool" where
  \<comment> \<open>\<open>.\<close> without \<open>re.DOTALL\<close>: every character but the newline\<close>
  "dot c = (c \<noteq> CHR 0x0A)"

definition ci :: "char \<Rightarrow> char \<Rightarrow> bool" where
  \<comment> \<open>a literal character under \<open>re.IGNORECASE\<close>\<close>
  "ci l c = (lower_char c = lower_char l)"

definition lit :: "string \<Rightarrow> rx list" where
  "lit s = map (\<lambda>l. One (ci l)) s"

definition oneof :: "string \<Rightarrow> char \<Rightarrow> bool" where
  \<comment> \<open>a bracket class of punctuation such as \<open>[\.\)]\<close>\<close>
  "oneof cs c = (c \<in> set cs)"

definition patterns :: "rx list list" where
  "patterns =
     [ [Star isspace, Plus digit, One (oneof ''.)''), Star isspace, Plus dot, One (oneof ''?'')],
       [Star isspace, One letter, One (oneof '')''), Star isspace, Plus dot, One (oneof ''?'')],
       [Star isspace] @ lit ''Question''
         @ [Plus isspace, Plus digit, Opt (oneof '':.''), Star isspace, Plus dot],
       [Star isspace] @ lit ''Q'' @ [Plus digit, Opt (oneof '':.''), Star isspace, Plus dot],
       [Plus dot, One (oneof ''?''), Star isspace, Eol] ]"

definition prefixes :: "rx list list" where
  "prefixes =
     [ [Plus digit, One (oneof ''.)''), Star isspace],
       [One letter, One (oneof '')''), Star isspace],
       lit ''Question'' @ [Plus isspace, Plus digit, Opt (oneof '':.''), Star isspace],
       lit ''Q'' @ [Plus digit, Opt (oneof '':.''), Star isspace] ]"

section \<open>The extractor\<close>

definition collapse :: "string \<Rightarrow> string" where
  \<comment> \<open>\<open>' '.join(question.split())\<close>\<close>
  "collapse question = join '' '' (split question)"

definition clean_question :: "string \<Rightarrow> string" where
  "clean_question question = strip (fold re_sub prefixes (collapse question))"

definition line_step :: "string \<Rightarrow> string list \<Rightarrow> string list" where
  \<comment> \<open>The body of the loop over the lines: the first pattern that matches decides, then
      the inner loop is left.\<close>
  "line_step line0 questions =
     (let line = strip line0 in
      if length line < 10 then questions
      else case find (\<lambda>pattern. re_match pattern line) patterns of
             None \<Rightarrow> questions
           | Some pattern \<Rightarrow>
               (let cleaned = clean_question line in
                if cleaned \<noteq> [] \<and> length cleaned > 15 then questions @ [cleaned]
                else questions))"

definition candidates :: "string \<Rightarrow> string list" where
  \<comment> \<open>The list \<open>questions\<close> when the loop over the lines has ended.\<close>
  "candidates text = fold line_step (split_on (CHR 0x0A) [] text) []"

definition dedup_step :: "'a \<Rightarrow> 'a set \<times> 'a list \<Rightarrow> 'a set \<times> 'a list" where
  "dedup_step q st =
     (case st of (seen, unique_questions) \<Rightarrow>
        if q \<notin> seen then (insert q seen, unique_questions @ [q])
        else (seen, unique_questions))"

definition dedup :: "'a list \<Rightarrow> 'a list" where
  \<comment> \<open>The pass that removes duplicates: \<open>seen\<close> starts empty, \<open>unique_questions\<close> too.\<close>
  "dedup questions = snd (fold dedup_step questions ({}, []))"

definition extract_questions_basic :: "string \<Rightarrow> string list" where
  "extract_questions_basic text = dedup (candidates text)"

definition first_occurrences :: "'a list \<Rightarrow> 'a list" where
  \<comment> \<open>The elements at the positions where a value occurs for the first time, in the
      order of these positions.\<close>
  "first_occurrences xs =
     map (\<lambda>i. xs ! i) (filter (\<lambda>i. xs ! i \<notin> set (take i xs)) [0..<length xs])"

fun first_match :: "rx list list \<Rightarrow> nat \<Rightarrow> string \<Rightarrow> (nat \<times> string) option" where
  \<comment> \<open>The index of the first pattern of a list that matches, from \<open>i\<close> on, and the rest
      of the string after its match.\<close>
  "first_match [] i s = None"
| "first_match (p # ps) i s =
     (case rmatch p s of Some r \<Rightarrow> Some (i, r) | None \<Rightarrow> first_match ps (Suc i) s)"

definition strip_one_prefix :: "string \<Rightarrow> string" where
  \<comment> \<open>Normalization as the specification words it: collapse, strip exactly one
      recognized prefix form, trim.\<close>
  "strip_one_prefix question =
     (let c = collapse question in
      strip (case first_match prefixes 0 c of None \<Rightarrow> c | Some (i, r) \<Rightarrow> r))"

fun firsts :: "'a set \<Rightarrow> 'a list \<Rightarrow> 'a list" where
  \<comment> \<open>The elements of a list that are not in \<open>S\<close> and not earlier in the list.\<close>
  "firsts S [] = []"
| "firsts S (x # xs) = (if x \<in> S then firsts S xs else x # firsts (insert x S) xs)"

fun tail_ok :: "string \<Rightarrow> bool" where
  \<comment> \<open>Every whitespace character is a space and stands before a character that is not
      whitespace.\<close>
  "tail_ok [] = True"
| "tail_ok (c # cs) =
     (if isspace c then c = CHR '' '' \<and> cs \<noteq> [] \<and> \<not> isspace (hd cs) \<and> tail_ok cs
      else tail_ok cs)"

definition collapsed :: "string \<Rightarrow> bool" where
  \<comment> \<open>Words separated by single spaces, with no whitespace at either end.\<close>
  "collapsed s = (tail_ok s \<and> (s = [] \<or> \<not> isspace (hd s)))"

definition proper :: "string list \<Rightarrow> bool" where
  \<comment> \<open>A list of words: non-empty and free of whitespace.\<close>
  "proper ws = list_all (\<lambda>w. w \<noteq> [] \<and> list_all (\<lambda>c. \<not> isspace c) w) ws"

section \<open>Errors\<close>

datatype error = NameError | ServiceError | RequestException | HTTPError | OSError

section \<open>The LLM enhancer\<close>

text \<open>
  The completion endpoint is a parameter: applied to the topic and the question that
  the prompt is built from, it gives the content of the first choice of the response,
  or the exception that the call raised.
\<close>

type_synonym llm = "string \<Rightarrow> string \<Rightarrow> error + string"

definition enhance_step :: "string \<Rightarrow> string list \<Rightarrow> string list" where
  \<comment> \<open>What the loop body does with the content of one response.\<close>
  "enhance_step response_content enhanced_questions =
     (let result = strip response_content in
      if result \<noteq> ''UNRELATED'' \<and> length result > 10 then enhanced_questions @ [result]
      else enhanced_questions)"

fun enhance_loop :: "error + unit \<Rightarrow> llm \<Rightarrow> string \<Rightarrow> string list \<Rightarrow> string list
                       \<Rightarrow> error + string list" where
  \<comment> \<open>The loop over the questions inside the \<open>try\<close> block; \<open>pause\<close> is the outcome of
      the statement \<open>time.sleep(0.5)\<close> that ends the body.\<close>
  "enhance_loop pause client tp [] enhanced_questions = Inr enhanced_questions"
| "enhance_loop pause client tp (question # questions) enhanced_questions =
     (case client tp question of
        Inl e \<Rightarrow> Inl e
      | Inr response_content \<Rightarrow>
          (case pause of
             Inl e \<Rightarrow> Inl e
           | Inr u \<Rightarrow> enhance_loop pause client tp questions
                        (enhance_step response_content enhanced_questions)))"

definition time_sleep :: "error + unit" where
  \<comment> \<open>The module of the extractor never imports \<open>time\<close>: evaluating the name raises
      \<open>NameError\<close>.\<close>
  "time_sleep = Inl NameError"

definition enhance_with_llm :: "llm option \<Rightarrow> string list \<Rightarrow> string \<Rightarrow> string list" where
  "enhance_with_llm llm_client questions tp =
     (case llm_client of
        None \<Rightarrow> questions
      | Some client \<Rightarrow>
          (case enhance_loop time_sleep client tp questions [] of
             Inl e \<Rightarrow> questions
           | Inr enhanced_questions \<Rightarrow> enhanced_questions))"

section \<open>The document fetcher\<close>

record response =
  status_code :: nat
  content_type_header :: "string option"
  content :: string

record paper_info =
  info_url :: string
  info_title :: string
  info_subject :: string
  info_topic :: string

record filesystem =
  files :: "string \<rightharpoonup> string"
  writable :: bool

definition isalnum :: "char \<Rightarrow> bool" where
  \<comment> \<open>\<open>str.isalnum\<close> below 256: the ASCII digits and letters, the ordinal indicators,
      the micro sign, the superscript digits, the vulgar fractions and the Latin-1
      letters.\<close>
  "isalnum c = (let n = (of_char c :: nat) in
     (48 \<le> n \<and> n \<le> 57) \<or> (65 \<le> n \<and> n \<le> 90) \<or> (97 \<le> n \<and> n \<le> 122)
     \<or> n \<in> {170, 178, 179, 181, 185, 186, 188, 189, 190}
     \<or> (192 \<le> n \<and> n \<le> 255 \<and> n \<noteq> 215 \<and> n \<noteq> 247))"

definition file_path :: "paper_info \<Rightarrow> string" where
  "file_path paper =
     (let safe_title = rstrip (filter (\<lambda>c. isalnum c \<or> c \<in> set '' -_'') (info_title paper));
          safe_title = map (\<lambda>c. if c = CHR '' '' then CHR ''_'' else c) safe_title;
          filename = safe_title @ ''.pdf''
      in ''data/raw_papers/'' @ filename)"

definition declares_pdf :: "response \<Rightarrow> bool" where
  \<comment> \<open>\<open>'pdf' in response.headers.get('content-type', '').lower()\<close>\<close>
  "declares_pdf r =
     contains ''pdf'' (lower (case content_type_header r of None \<Rightarrow> [] | Some v \<Rightarrow> v))"

definition raise_for_status :: "response \<Rightarrow> error + unit" where
  "raise_for_status r =
     (if 400 \<le> status_code r \<and> status_code r < 600 then Inl HTTPError else Inr ())"

definition open_write :: "filesystem \<Rightarrow> string \<Rightarrow> string \<Rightarrow> error + filesystem" where
  \<comment> \<open>\<open>open(file_path, 'wb')\<close> and \<open>f.write\<close>: the file gets the given bytes, or the
      call raises and nothing is written.\<close>
  "open_write fs path bytes =
     (if writable fs then Inr (fs\<lparr>files := (files fs)(path \<mapsto> bytes)\<rparr>) else Inl OSError)"

definition download_try :: "(string \<Rightarrow> error + response) \<Rightarrow> filesystem \<Rightarrow> paper_info
                              \<Rightarrow> error + (string option \<times> filesystem)" where
  \<comment> \<open>The \<open>try\<close> block of the download; \<open>get\<close> is \<open>session.get\<close>.\<close>
  "download_try get fs paper =
     (case get (info_url paper) of
        Inl e \<Rightarrow> Inl e
      | Inr r \<Rightarrow>
          (case raise_for_status r of
             Inl e \<Rightarrow> Inl e
           | Inr u \<Rightarrow>
               if \<not> declares_pdf r \<and> length (content r) < 1000 then Inr (None, fs)
               else (case open_write fs (file_path paper) (content r) of
                       Inl e \<Rightarrow> Inl e
                     | Inr fs' \<Rightarrow> Inr (Some (file_path paper), fs'))))"

definition download_paper :: "(string \<Rightarrow> error + response) \<Rightarrow> filesystem \<Rightarrow> paper_info
                                \<Rightarrow> string option \<times> filesystem" where
  "download_paper get fs paper =
     (if file_path paper \<in> dom (files fs) then (Some (file_path paper), fs)
      else case download_try get fs paper of
             Inl e \<Rightarrow> (None, fs)
           | Inr res \<Rightarrow> res)"

section \<open>Facts about strings\<close>

lemma contains_sublist: "contains w s = sublist w s"
  by (induction s) (auto simp: sublist_Cons_right)

lemma contains_append_left: "contains w s \<Longrightarrow> contains w (p @ s)"
  unfolding contains_sublist by (metis sublist_append)

lemma contains_append_right: "contains w s \<Longrightarrow> contains w (s @ t)"
  unfolding contains_sublist by (metis sublist_order.order.trans sublist_append_rightI)

lemma lower_append: "lower (a @ b) = lower a @ lower b"
  by (simp add: lower_def)

lemma contains_lower: "contains w s \<Longrightarrow> contains (lower w) (lower s)"
  unfolding contains_sublist lower_def sublist_def by (metis map_append)

section \<open>Properties of the topic filter\<close>

lemma set_filter_step:
  "set (filter_step topic (split (lower topic)) q acc) =
     set acc \<union> (if token_rule topic q \<or> algebra_rule topic q then {q} else {})"
  by (auto simp: filter_step_def token_rule_def algebra_rule_def Let_def)

lemma set_fold_filter_step:
  "set (fold (filter_step topic (split (lower topic))) qs acc) =
     set acc \<union> {q \<in> set qs. token_rule topic q \<or> algebra_rule topic q}"
proof (induction qs arbitrary: acc)
  case Nil
  show ?case by simp
next
  case (Cons q qs)
  show ?case by (simp only: fold_simps Cons.IH set_filter_step) auto
qed

lemma set_filter_by_topic:
  "topic \<noteq> [] \<Longrightarrow>
     set (filter_by_topic qs topic) = {q \<in> set qs. token_rule topic q \<or> algebra_rule topic q}"
  by (simp add: filter_by_topic_def Let_def set_fold_filter_step)

lemma split_acc_append:
  "split_acc w (a @ CHR '' '' # b) = split_acc w a @ split b"
  by (induction a arbitrary: w) (auto simp: split_def isspace_def)

text \<open>
  C10: for the empty topic the filter returns the list of questions as it is.
\<close>

theorem filter_by_topic_empty: "filter_by_topic questions [] = questions"
  by (simp add: filter_by_topic_def)

text \<open>
  C1: for a non-empty topic, a question is in the result of the filter if and only if it
  is one of the given questions and rule (a) or rule (b) holds for it; in particular a
  question containing \<open>matrix\<close> is kept for every topic that contains \<open>algebra\<close> in
  any letter case, whatever the tokens of the topic are.
\<close>

theorem filter_by_topic_retains:
  "topic \<noteq> [] \<Longrightarrow>
     (q \<in> set (filter_by_topic qs topic) \<longleftrightarrow>
        q \<in> set qs \<and> (token_rule topic q \<or> algebra_rule topic q))
     \<and> (contains ''algebra'' (lower topic) \<and> contains ''matrix'' q \<and> q \<in> set qs
          \<longrightarrow> q \<in> set (filter_by_topic qs topic))"
proof -
  assume ne: "topic \<noteq> []"
  have lm: "lower ''matrix'' = ''matrix''" by (simp add: lower_def lower_char_def)
  have "contains ''matrix'' (lower q)" if "contains ''matrix'' q"
    using contains_lower [OF that] by (simp only: lm)
  then have "algebra_rule topic q" if "contains ''algebra'' (lower topic)" "contains ''matrix'' q"
    using that by (simp add: algebra_rule_def math_terms_def)
  then show ?thesis
    by (auto simp: set_filter_by_topic [OF ne])
qed

theorem filter_by_topic_retains_witness:
  "''Linear Algebra'' \<noteq> []
   \<and> \<not> token_rule ''Linear Algebra'' ''What is the determinant of a 2x2 matrix?''
   \<and> algebra_rule ''Linear Algebra'' ''What is the determinant of a 2x2 matrix?''
   \<and> ''What is the determinant of a 2x2 matrix?''
        \<in> set (filter_by_topic
             [''Name three birds of prey?'', ''What is the determinant of a 2x2 matrix?'']
             ''Linear Algebra'')
   \<and> ''Name three birds of prey?''
        \<notin> set (filter_by_topic
             [''Name three birds of prey?'', ''What is the determinant of a 2x2 matrix?'']
             ''Linear Algebra'')"
proof -
  have h: "''Linear Algebra'' \<noteq> []" by simp
  have a: "\<not> token_rule ''Linear Algebra'' ''What is the determinant of a 2x2 matrix?''
     \<and> algebra_rule ''Linear Algebra'' ''What is the determinant of a 2x2 matrix?''
     \<and> \<not> token_rule ''Linear Algebra'' ''Name three birds of prey?''
     \<and> \<not> algebra_rule ''Linear Algebra'' ''Name three birds of prey?''"
    by code_simp
  show ?thesis
    using a
      filter_by_topic_retains [OF h, of "''What is the determinant of a 2x2 matrix?''"
        "[''Name three birds of prey?'', ''What is the determinant of a 2x2 matrix?'']"]
      filter_by_topic_retains [OF h, of "''Name three birds of prey?''"
        "[''Name three birds of prey?'', ''What is the determinant of a 2x2 matrix?'']"]
    by simp
qed

section \<open>Deduplication\<close>

lemma fold_dedup_step:
  "fold dedup_step xs (S, u) = (S \<union> set xs, u @ firsts S xs)"
  by (induction xs arbitrary: S u) (auto simp: dedup_step_def)

lemma dedup_firsts: "dedup xs = firsts {} xs"
  by (simp add: dedup_def fold_dedup_step)

lemma set_firsts: "set (firsts S xs) = set xs - S"
  by (induction xs arbitrary: S) auto

lemma distinct_firsts: "distinct (firsts S xs)"
  by (induction xs arbitrary: S) (auto simp: set_firsts)

lemma firsts_index:
  "firsts S xs = map (\<lambda>i. xs ! i) (filter (\<lambda>i. xs ! i \<notin> S \<union> set (take i xs)) [0..<length xs])"
proof (induction xs arbitrary: S)
  case Nil
  show ?case by simp
next
  case (Cons x xs)
  have upt: "[0..<length (x # xs)] = 0 # map Suc [0..<length xs]"
    by (simp add: upt_conv_Cons map_Suc_upt del: upt_Suc)
  show ?case
    by (simp only: upt)
       (auto simp: Cons.IH filter_map comp_def
             intro!: arg_cong [where f = "map ((!) xs)"] filter_cong)
qed

lemma dedup_first_occurrences: "dedup xs = first_occurrences xs"
  by (simp add: dedup_firsts firsts_index first_occurrences_def)

lemma distinct_dedup: "distinct (dedup xs)"
  by (simp add: dedup_firsts distinct_firsts)

lemma set_dedup: "set (dedup xs) = set xs"
  by (simp add: dedup_firsts set_firsts)


text \<open>
  C2: the deduplication pass returns the distinct values of its input, none twice, and
  they are the elements at the positions of first occurrence, in the order of these
  positions.
\<close>

theorem dedup_first_occurrence_order:
  "distinct (dedup xs) \<and> set (dedup xs) = set xs \<and> dedup xs = first_occurrences xs"
  using distinct_dedup [of xs] set_dedup [of xs] dedup_first_occurrences [of xs] by blast

section \<open>Normalization\<close>

lemma proper_split_acc:
  "list_all (\<lambda>c. \<not> isspace c) w \<Longrightarrow> proper (split_acc w s)"
  by (induction s arbitrary: w) (auto simp: proper_def)

lemma tail_ok_spacefree_append:
  "list_all (\<lambda>c. \<not> isspace c) w \<Longrightarrow> tail_ok (w @ t) = tail_ok t"
  by (induction w) auto

lemma join_Cons: "X \<noteq> [] \<Longrightarrow> join sep (w # X) = w @ sep @ join sep X"
  by (cases X) auto

lemma collapsed_join:
  "proper ws \<Longrightarrow> tail_ok (join '' '' ws) \<and> (ws \<noteq> [] \<longrightarrow> join '' '' ws \<noteq> [] \<and> \<not> isspace (hd (join '' '' ws)))"
proof (induction "'' ''" ws rule: join.induct)
  case 1
  show ?case by simp
next
  case (2 w)
  then show ?case
    using tail_ok_spacefree_append [of w "[]"] by (cases w) (auto simp: proper_def)
next
  case (3 w v ws)
  then show ?case
    using tail_ok_spacefree_append [of w "CHR '' '' # join '' '' (v # ws)"]
    by (cases w) (auto simp: proper_def isspace_def)
qed

lemma collapsed_collapse: "collapsed (collapse s)"
  using collapsed_join [OF proper_split_acc [of "[]" s]]
  by (auto simp: collapsed_def collapse_def split_def)

lemma tail_ok_suffix: "suffix y s \<Longrightarrow> tail_ok s \<Longrightarrow> tail_ok y"
  by (induction s) (auto simp: suffix_Cons split: if_splits)

lemma rmatch_suffix: "rmatch rs s = Some r \<Longrightarrow> suffix r s"
  by (induction rs s rule: rmatch.induct)
     (auto simp: suffix_Cons split: if_splits option.splits list.splits)

lemma re_sub_suffix: "suffix (re_sub p s) s"
  by (auto simp: re_sub_def rmatch_suffix split: option.splits)

lemma fold_re_sub_suffix: "suffix (fold re_sub ps s) s"
proof (induction ps arbitrary: s)
  case Nil
  show ?case by simp
next
  case (Cons p ps)
  show ?case
    using Cons.IH [of "re_sub p s"] re_sub_suffix [of p s]
    by (auto intro: suffix_order.trans)
qed

lemma tail_ok_last: "tail_ok s \<Longrightarrow> s \<noteq> [] \<Longrightarrow> \<not> isspace (last s)"
  by (induction s) (auto split: if_splits)

lemma rstrip_id: "s = [] \<or> \<not> isspace (last s) \<Longrightarrow> rstrip s = s"
  by (cases s rule: rev_cases) (auto simp: rstrip_def)

lemma collapsed_lstrip: "tail_ok y \<Longrightarrow> collapsed (lstrip y)"
proof -
  assume t: "tail_ok y"
  have "suffix (dropWhile isspace y) y"
    by (metis suffixI takeWhile_dropWhile_id)
  then have "tail_ok (dropWhile isspace y)" using t by (rule tail_ok_suffix)
  moreover have "dropWhile isspace y = [] \<or> \<not> isspace (hd (dropWhile isspace y))"
    using hd_dropWhile [of isspace y] by blast
  ultimately show ?thesis by (simp add: collapsed_def lstrip_def)
qed

lemma collapsed_rstrip: "collapsed s \<Longrightarrow> rstrip s = s"
  using tail_ok_last [of s] by (auto simp: collapsed_def intro: rstrip_id)

lemma collapsed_strip_suffix: "tail_ok y \<Longrightarrow> collapsed (strip y)"
  using collapsed_lstrip [of y] collapsed_rstrip [of "lstrip y"] by (simp add: strip_def)

lemma collapsed_strip: "collapsed s \<Longrightarrow> strip s = s"
proof -
  assume c: "collapsed s"
  then have "lstrip s = s" by (cases s) (auto simp: collapsed_def lstrip_def)
  then show ?thesis using collapsed_rstrip [OF c] by (simp add: strip_def)
qed

lemma join_split_acc:
  "tail_ok s \<Longrightarrow> list_all (\<lambda>c. \<not> isspace c) w \<Longrightarrow> (w = [] \<longrightarrow> s = [] \<or> \<not> isspace (hd s))
     \<Longrightarrow> join '' '' (split_acc w s) = w @ s"
proof (induction s arbitrary: w)
  case Nil
  then show ?case by simp
next
  case (Cons c cs)
  show ?case
  proof (cases "isspace c")
    case True
    with Cons.prems have c: "c = CHR '' ''" and cs: "cs \<noteq> []" "\<not> isspace (hd cs)" "tail_ok cs"
      and w: "w \<noteq> []" by auto
    have ih: "join '' '' (split_acc [] cs) = cs"
      using Cons.IH [of "[]"] cs by simp
    then have "split_acc [] cs \<noteq> []" using cs by auto
    then show ?thesis using True w ih by (simp add: join_Cons c)
  next
    case False
    with Cons.prems have "tail_ok cs" by simp
    then have "join '' '' (split_acc (w @ [c]) cs) = (w @ [c]) @ cs"
      using Cons.prems False by (intro Cons.IH) auto
    then show ?thesis using False by simp
  qed
qed

lemma collapsed_collapse_id: "collapsed s \<Longrightarrow> collapse s = s"
  using join_split_acc [of s "[]"] by (auto simp: collapsed_def collapse_def split_def)

lemma collapsed_clean_question: "collapsed (clean_question s)"
proof -
  have "tail_ok (collapse s)" using collapsed_collapse [of s] by (simp add: collapsed_def)
  then have "tail_ok (fold re_sub prefixes (collapse s))"
    using fold_re_sub_suffix tail_ok_suffix by blast
  then show ?thesis by (simp add: clean_question_def collapsed_strip_suffix)
qed

lemma fold_re_sub_no_match:
  "list_all (\<lambda>p. \<not> re_match p r) ps \<Longrightarrow> fold re_sub ps r = r"
  by (induction ps) (auto simp: re_sub_def re_match_def)

text \<open>
  C5: when the normalized form of a string matches none of the four prefix patterns,
  normalizing it once more gives it back unchanged.
\<close>

theorem clean_question_idempotent:
  "list_all (\<lambda>p. \<not> re_match p (clean_question s)) prefixes
     \<Longrightarrow> clean_question (clean_question s) = clean_question s"
proof -
  assume nm: "list_all (\<lambda>p. \<not> re_match p (clean_question s)) prefixes"
  let ?r = "clean_question s"
  have c: "collapsed ?r" by (rule collapsed_clean_question)
  have "clean_question ?r = strip (fold re_sub prefixes ?r)"
    by (simp add: clean_question_def [of ?r] collapsed_collapse_id [OF c])
  also have "\<dots> = strip ?r" by (simp only: fold_re_sub_no_match [OF nm])
  also have "\<dots> = ?r" by (rule collapsed_strip [OF c])
  finally show ?thesis .
qed

theorem clean_question_idempotent_witness:
  "list_all (\<lambda>p. \<not> re_match p (clean_question ''1. What is the determinant of a 2x2 matrix?'')) prefixes
   \<and> clean_question ''1. What is the determinant of a 2x2 matrix?'' = ''What is the determinant of a 2x2 matrix?''
   \<and> clean_question (clean_question ''1. What is the determinant of a 2x2 matrix?'')
       = clean_question ''1. What is the determinant of a 2x2 matrix?''"
proof -
  have h: "list_all (\<lambda>p. \<not> re_match p (clean_question ''1. What is the determinant of a 2x2 matrix?'')) prefixes"
    by code_simp
  have v: "clean_question ''1. What is the determinant of a 2x2 matrix?'' = ''What is the determinant of a 2x2 matrix?''"
    by code_simp
  show ?thesis using h v clean_question_idempotent [OF h] by blast
qed

lemma rmatch_One_shorter: "rmatch (One p # rs) c = Some r \<Longrightarrow> length r < length c"
  by (cases c) (auto split: if_splits dest!: rmatch_suffix suffix_length_le)

lemma rmatch_Plus_shorter: "rmatch (Plus p # rs) c = Some r \<Longrightarrow> length r < length c"
  by (cases c) (auto split: if_splits dest!: rmatch_suffix suffix_length_le)

lemma prefixes_shorter:
  "p \<in> set prefixes \<Longrightarrow> rmatch p c = Some r \<Longrightarrow> length r < length c"
  by (auto simp: prefixes_def lit_def dest: rmatch_One_shorter rmatch_Plus_shorter)

lemma first_match_fold:
  "first_match ps i c = Some (j, r) \<Longrightarrow>
     i \<le> j \<and> j - i < length ps \<and> rmatch (ps ! (j - i)) c = Some r
     \<and> fold re_sub ps c = fold re_sub (drop (Suc (j - i)) ps) r"
proof (induction ps arbitrary: i)
  case Nil
  then show ?case by simp
next
  case (Cons p ps)
  show ?case
  proof (cases "rmatch p c")
    case None
    with Cons.prems have "first_match ps (Suc i) c = Some (j, r)" by simp
    from Cons.IH [OF this] have ih: "Suc i \<le> j" "j - Suc i < length ps"
      "rmatch (ps ! (j - Suc i)) c = Some r"
      "fold re_sub ps c = fold re_sub (drop (Suc (j - Suc i)) ps) r" by auto
    have d: "j - i = Suc (j - Suc i)" using ih(1) by arith
    have "re_sub p c = c" using None by (simp add: re_sub_def)
    then show ?thesis using ih by (simp add: d)
  next
    case (Some r')
    with Cons.prems have "j = i" "r' = r" by auto
    moreover have "re_sub p c = r'" using Some by (simp add: re_sub_def)
    ultimately show ?thesis using Some by simp
  qed
qed

text \<open>
  C3 (amended): when the collapsed line starts with a recognized prefix form,
  normalization removes the first form of the list (numeric, lettered, Question N, QN)
  that matches, which is a non-empty prefix, then applies each later form of the list to
  what is left, and trims; so more than one prefix form can be stripped.
\<close>

theorem clean_question_strips_first_then_later:
  "first_match prefixes 0 (collapse s) = Some (i, r) \<Longrightarrow>
     i < length prefixes \<and> rmatch (prefixes ! i) (collapse s) = Some r
     \<and> length r < length (collapse s)
     \<and> clean_question s = strip (fold re_sub (drop (Suc i) prefixes) r)"
proof -
  assume fm: "first_match prefixes 0 (collapse s) = Some (i, r)"
  from first_match_fold [OF fm]
  have a: "i < length prefixes" "rmatch (prefixes ! i) (collapse s) = Some r"
    "fold re_sub prefixes (collapse s) = fold re_sub (drop (Suc i) prefixes) r" by auto
  have "length r < length (collapse s)"
    using prefixes_shorter [OF nth_mem [OF a(1)] a(2)] .
  then show ?thesis using a by (simp add: clean_question_def)
qed

theorem clean_question_strips_first_then_later_witness:
  "first_match prefixes 0 (collapse ''1. a) What is the rank of the matrix?'')
      = Some (0, ''a) What is the rank of the matrix?'')
   \<and> clean_question ''1. a) What is the rank of the matrix?''
      = strip (fold re_sub (drop (Suc 0) prefixes) ''a) What is the rank of the matrix?'')
   \<and> clean_question ''1. a) What is the rank of the matrix?'' = ''What is the rank of the matrix?''"
proof -
  have h: "first_match prefixes 0 (collapse ''1. a) What is the rank of the matrix?'')
      = Some (0, ''a) What is the rank of the matrix?'')" by code_simp
  have v: "clean_question ''1. a) What is the rank of the matrix?'' = ''What is the rank of the matrix?''"
    by code_simp
  show ?thesis using h v clean_question_strips_first_then_later [OF h] by blast
qed

text \<open>
  The line \<open>1. a) What is the rank of the matrix?\<close> is matched by the first pattern
  and loses two prefix forms, the numeric and the lettered one; stripping exactly one
  would leave \<open>a) What is the rank of the matrix?\<close>.
\<close>

theorem clean_question_two_prefixes_counterexample:
  "re_match (hd patterns) ''1. a) What is the rank of the matrix?''
   \<and> strip_one_prefix ''1. a) What is the rank of the matrix?'' = ''a) What is the rank of the matrix?''
   \<and> clean_question ''1. a) What is the rank of the matrix?'' = ''What is the rank of the matrix?''
   \<and> clean_question ''1. a) What is the rank of the matrix?''
       \<noteq> strip_one_prefix ''1. a) What is the rank of the matrix?''"
  by code_simp

section \<open>The extraction run\<close>

lemma set_line_step:
  "set (line_step l acc) = set acc \<union>
     (if 10 \<le> length (strip l) \<and> list_ex (\<lambda>p. re_match p (strip l)) patterns
         \<and> 15 < length (clean_question (strip l))
      then {clean_question (strip l)} else {})"
proof (cases "find (\<lambda>p. re_match p (strip l)) patterns")
  case None
  then have "\<not> list_ex (\<lambda>p. re_match p (strip l)) patterns"
    by (simp add: find_None_iff list_ex_iff)
  then show ?thesis using None by (simp add: line_step_def Let_def)
next
  case (Some p)
  then have "list_ex (\<lambda>p. re_match p (strip l)) patterns"
    using find_None_iff [of "\<lambda>p. re_match p (strip l)" patterns] by (auto simp: list_ex_iff)
  then show ?thesis using Some by (auto simp: line_step_def Let_def)
qed

lemma set_fold_line_step:
  "set (fold line_step ls acc) = set acc \<union>
     {clean_question (strip l) | l. l \<in> set ls \<and> 10 \<le> length (strip l)
        \<and> list_ex (\<lambda>p. re_match p (strip l)) patterns
        \<and> 15 < length (clean_question (strip l))}"
proof (induction ls arbitrary: acc)
  case Nil
  show ?case by simp
next
  case (Cons l ls)
  show ?case by (simp only: fold_simps Cons.IH set_line_step) auto
qed

lemma set_candidates:
  "set (candidates text) =
     {clean_question (strip l) | l. l \<in> set (split_on (CHR 0x0A) [] text) \<and> 10 \<le> length (strip l)
        \<and> list_ex (\<lambda>p. re_match p (strip l)) patterns
        \<and> 15 < length (clean_question (strip l))}"
  by (simp add: candidates_def set_fold_line_step)

text \<open>
  C4: the output of one extraction has no duplicates and is the list of candidates in
  the order of first occurrence; every question in it is longer than 15 characters and
  is the cleaned form of a stripped line of at least 10 characters that a pattern
  matches; a cleaned line of 15 characters or less is not in the output.
\<close>

theorem extract_questions_basic_invariant:
  "distinct (extract_questions_basic text)
   \<and> extract_questions_basic text = first_occurrences (candidates text)
   \<and> (\<forall>q \<in> set (extract_questions_basic text).
         15 < length q
         \<and> (\<exists>line \<in> set (split_on (CHR 0x0A) [] text).
               q = clean_question (strip line) \<and> 10 \<le> length (strip line)
               \<and> list_ex (\<lambda>p. re_match p (strip line)) patterns))
   \<and> (\<forall>line \<in> set (split_on (CHR 0x0A) [] text).
         length (clean_question (strip line)) \<le> 15
         \<longrightarrow> clean_question (strip line) \<notin> set (extract_questions_basic text))"
proof -
  have s: "set (extract_questions_basic text) = set (candidates text)"
    by (simp add: extract_questions_basic_def set_dedup)
  have 1: "distinct (extract_questions_basic text)"
    by (simp add: extract_questions_basic_def distinct_dedup)
  have 2: "extract_questions_basic text = first_occurrences (candidates text)"
    by (simp add: extract_questions_basic_def dedup_first_occurrences)
  have 3: "15 < length q \<and> (\<exists>line \<in> set (split_on (CHR 0x0A) [] text).
               q = clean_question (strip line) \<and> 10 \<le> length (strip line)
               \<and> list_ex (\<lambda>p. re_match p (strip line)) patterns)"
    if "q \<in> set (extract_questions_basic text)" for q
    using that unfolding s set_candidates by blast
  have 4: "clean_question (strip line) \<notin> set (extract_questions_basic text)"
    if "length (clean_question (strip line)) \<le> 15" for line
    using that 3 [of "clean_question (strip line)"] by auto
  show ?thesis using 1 2 3 4 by blast
qed

theorem extract_questions_basic_invariant_witness:
  "extract_questions_basic
     (''1. What is the determinant of a 2x2 matrix?'' @ [CHR 0x0A] @ ''3. Why is it so?''
        @ [CHR 0x0A] @ ''  What is the determinant of a 2x2   matrix?  '')
     = [''What is the determinant of a 2x2 matrix?'']
   \<and> ''3. Why is it so?''
        \<in> set (split_on (CHR 0x0A) []
             (''1. What is the determinant of a 2x2 matrix?'' @ [CHR 0x0A] @ ''3. Why is it so?''
                @ [CHR 0x0A] @ ''  What is the determinant of a 2x2   matrix?  ''))
   \<and> length (clean_question (strip ''3. Why is it so?'')) \<le> 15
   \<and> distinct (extract_questions_basic
        (''1. What is the determinant of a 2x2 matrix?'' @ [CHR 0x0A] @ ''3. Why is it so?''
           @ [CHR 0x0A] @ ''  What is the determinant of a 2x2   matrix?  ''))
   \<and> 15 < length ''What is the determinant of a 2x2 matrix?''
   \<and> clean_question (strip ''3. Why is it so?'')
        \<notin> set (extract_questions_basic
             (''1. What is the determinant of a 2x2 matrix?'' @ [CHR 0x0A] @ ''3. Why is it so?''
                @ [CHR 0x0A] @ ''  What is the determinant of a 2x2   matrix?  ''))"
proof -
  let ?T = "''1. What is the determinant of a 2x2 matrix?'' @ [CHR 0x0A] @ ''3. Why is it so?''
        @ [CHR 0x0A] @ ''  What is the determinant of a 2x2   matrix?  ''"
  have e: "extract_questions_basic ?T = [''What is the determinant of a 2x2 matrix?'']"
    by code_simp
  have l: "''3. Why is it so?'' \<in> set (split_on (CHR 0x0A) [] ?T)"
    by code_simp
  have c: "length (clean_question (strip ''3. Why is it so?'')) \<le> 15"
    by code_simp
  have d: "distinct (extract_questions_basic ?T)"
    using extract_questions_basic_invariant [of ?T] by (rule conjunct1)
  have "\<forall>line \<in> set (split_on (CHR 0x0A) [] ?T).
          length (clean_question (strip line)) \<le> 15
          \<longrightarrow> clean_question (strip line) \<notin> set (extract_questions_basic ?T)"
    using extract_questions_basic_invariant [of ?T] by (elim conjE)
  then have "length (clean_question (strip ''3. Why is it so?'')) \<le> 15
          \<longrightarrow> clean_question (strip ''3. Why is it so?'') \<notin> set (extract_questions_basic ?T)"
    using l by (rule bspec)
  then have n: "clean_question (strip ''3. Why is it so?'') \<notin> set (extract_questions_basic ?T)"
    using c by (rule mp)
  have g: "15 < length ''What is the determinant of a 2x2 matrix?''" by simp
  show ?thesis
    by (intro conjI) (rule e, rule l, rule c, rule d, rule g, rule n)
qed

text \<open>
  C8: the line \<open>1. What is the determinant of a 2x2 matrix?\<close> is matched by the first
  pattern, is normalized to \<open>What is the determinant of a 2x2 matrix?\<close>, is the one
  question extracted, and the filter keeps it for the topic \<open>Linear Algebra\<close>.
\<close>

theorem scenario_determinant:
  "re_match (hd patterns) ''1. What is the determinant of a 2x2 matrix?''
   \<and> clean_question ''1. What is the determinant of a 2x2 matrix?''
       = ''What is the determinant of a 2x2 matrix?''
   \<and> extract_questions_basic ''1. What is the determinant of a 2x2 matrix?''
       = [''What is the determinant of a 2x2 matrix?'']
   \<and> filter_by_topic (extract_questions_basic ''1. What is the determinant of a 2x2 matrix?'')
        ''Linear Algebra'' = [''What is the determinant of a 2x2 matrix?'']"
  by code_simp

section \<open>Monotonicity of the topic filter\<close>

lemma lower_char_space: "isspace c \<Longrightarrow> lower_char c = c"
  by (auto simp: isspace_def lower_char_def Let_def)

lemma lower_whitespace: "list_all isspace sep \<Longrightarrow> lower sep = sep"
  by (induction sep) (auto simp: lower_def lower_char_space)

lemma split_acc_whitespace: "list_all isspace sep \<Longrightarrow> split_acc [] (sep @ b) = split_acc [] b"
  by (induction sep) auto

lemma split_acc_separator:
  "sep \<noteq> [] \<Longrightarrow> list_all isspace sep \<Longrightarrow>
     split_acc w (a @ sep @ b) = split_acc w a @ split b"
proof (induction a arbitrary: w)
  case Nil
  then obtain c sep' where s: "sep = c # sep'" "isspace c" "list_all isspace sep'"
    by (cases sep) auto
  then show ?case by (simp add: split_def split_acc_whitespace)
next
  case (Cons c a)
  then show ?case by simp
qed

lemma split_separator:
  "sep \<noteq> [] \<Longrightarrow> list_all isspace sep \<Longrightarrow> split (a @ sep @ b) = split a @ split b"
  using split_acc_separator [of sep "[]" a b] by (simp add: split_def)

lemma token_rule_extend:
  "sep \<noteq> [] \<Longrightarrow> list_all isspace sep \<Longrightarrow> token_rule t q \<or> token_rule w q
     \<Longrightarrow> token_rule (t @ sep @ w) q"
  using split_separator [of sep "lower t" "lower w"]
  by (auto simp: token_rule_def lower_append lower_whitespace list_ex_iff)

lemma algebra_rule_extend_right: "algebra_rule t q \<Longrightarrow> algebra_rule (t @ x) q"
  by (simp add: algebra_rule_def lower_append contains_append_right)

lemma algebra_rule_extend_left: "algebra_rule t q \<Longrightarrow> algebra_rule (x @ t) q"
  by (simp add: algebra_rule_def lower_append contains_append_left)

text \<open>
  C6 (amended): for a non-empty topic, adding a token before or after the topic,
  delimited from it by any non-empty run of whitespace, removes no question from the
  result; for every topic, also the empty one, a question in which a token of the
  addition occurs is in the result for the extended topic.
\<close>

theorem filter_by_topic_monotone:
  "sep \<noteq> [] \<Longrightarrow> list_all isspace sep \<Longrightarrow>
   (topic \<noteq> [] \<longrightarrow>
      set (filter_by_topic qs topic) \<subseteq> set (filter_by_topic qs (topic @ sep @ w))
      \<and> set (filter_by_topic qs topic) \<subseteq> set (filter_by_topic qs (w @ sep @ topic)))
   \<and> (q \<in> set qs \<and> token_rule w q \<longrightarrow>
        q \<in> set (filter_by_topic qs (topic @ sep @ w))
        \<and> q \<in> set (filter_by_topic qs (w @ sep @ topic)))"
proof -
  assume sep: "sep \<noteq> []" "list_all isspace sep"
  have r: "set (filter_by_topic qs (topic @ sep @ w))
            = {q \<in> set qs. token_rule (topic @ sep @ w) q \<or> algebra_rule (topic @ sep @ w) q}"
    by (rule set_filter_by_topic) (simp add: sep(1))
  have l: "set (filter_by_topic qs (w @ sep @ topic))
            = {q \<in> set qs. token_rule (w @ sep @ topic) q \<or> algebra_rule (w @ sep @ topic) q}"
    by (rule set_filter_by_topic) (simp add: sep(1))
  have 1: "set (filter_by_topic qs topic) \<subseteq> set (filter_by_topic qs (topic @ sep @ w))"
    if "topic \<noteq> []"
    unfolding r set_filter_by_topic [OF that]
    using token_rule_extend [OF sep, of topic _ w]
      algebra_rule_extend_right [of topic _ "sep @ w"] by blast
  have 2: "set (filter_by_topic qs topic) \<subseteq> set (filter_by_topic qs (w @ sep @ topic))"
    if "topic \<noteq> []"
    unfolding l set_filter_by_topic [OF that]
    using token_rule_extend [OF sep, of w _ topic]
      algebra_rule_extend_left [of topic _ "w @ sep"] by auto
  have 3: "q \<in> set (filter_by_topic qs (topic @ sep @ w))
           \<and> q \<in> set (filter_by_topic qs (w @ sep @ topic))"
    if "q \<in> set qs" "token_rule w q"
    unfolding r l
    using that token_rule_extend [OF sep, of topic q w] token_rule_extend [OF sep, of w q topic]
    by blast
  show ?thesis using 1 2 3 by blast
qed

theorem filter_by_topic_monotone_witness:
  "[CHR 0x09, CHR '' ''] \<noteq> [] \<and> list_all isspace [CHR 0x09, CHR '' '']
   \<and> ''Linear'' \<noteq> []
   \<and> ''What is the rank of the matrix?'' \<in> set [''What is a linear map?'', ''What is the rank of the matrix?'']
   \<and> token_rule ''Matrix'' ''What is the rank of the matrix?''
   \<and> filter_by_topic [''What is a linear map?'', ''What is the rank of the matrix?''] ''Linear''
        = [''What is a linear map?'']
   \<and> ''What is a linear map?''
        \<in> set (filter_by_topic [''What is a linear map?'', ''What is the rank of the matrix?'']
                 (''Linear'' @ [CHR 0x09, CHR '' ''] @ ''Matrix''))
   \<and> ''What is the rank of the matrix?''
        \<in> set (filter_by_topic [''What is a linear map?'', ''What is the rank of the matrix?'']
                 (''Linear'' @ [CHR 0x09, CHR '' ''] @ ''Matrix''))"
proof -
  let ?qs = "[''What is a linear map?'', ''What is the rank of the matrix?'']"
  let ?sep = "[CHR 0x09, CHR '' '']"
  have s1: "?sep \<noteq> []" by simp
  have s2: "list_all isspace ?sep" by code_simp
  have h: "''Linear'' \<noteq> []" by simp
  have m: "''What is the rank of the matrix?'' \<in> set ?qs" by simp
  have t: "token_rule ''Matrix'' ''What is the rank of the matrix?''" by code_simp
  have f: "filter_by_topic ?qs ''Linear'' = [''What is a linear map?'']" by code_simp
  note inst = filter_by_topic_monotone [OF s1 s2, of "''Linear''" ?qs "''Matrix''"
        "''What is the rank of the matrix?''"]
  have sub: "set (filter_by_topic ?qs ''Linear'')
               \<subseteq> set (filter_by_topic ?qs (''Linear'' @ ?sep @ ''Matrix''))"
    using inst h by blast
  have a: "''What is a linear map?'' \<in> set (filter_by_topic ?qs (''Linear'' @ ?sep @ ''Matrix''))"
    using sub by (simp only: f) simp
  have b: "''What is the rank of the matrix?''
             \<in> set (filter_by_topic ?qs (''Linear'' @ ?sep @ ''Matrix''))"
    using inst m t by blast
  show ?thesis
    by (intro conjI) (rule s1, rule s2, rule h, rule m, rule t, rule f, rule a, rule b)
qed

text \<open>
  For the empty topic the filter keeps every question; once the token \<open>matrix\<close>,
  which occurs in the second question, is added, the first question is excluded.
\<close>

theorem filter_by_topic_monotone_counterexample:
  "''Name three birds of prey?''
     \<in> set (filter_by_topic [''Name three birds of prey?'', ''What is the rank of the matrix?''] [])
   \<and> ''Name three birds of prey?''
     \<notin> set (filter_by_topic [''Name three birds of prey?'', ''What is the rank of the matrix?'']
              ([] @ '' '' @ ''matrix''))
   \<and> ''Name three birds of prey?''
     \<notin> set (filter_by_topic [''Name three birds of prey?'', ''What is the rank of the matrix?'']
              ''matrix'')"
  by code_simp

section \<open>LLM enhancement\<close>

lemma enhance_with_llm_returns_input: "enhance_with_llm llm_client questions tp = questions"
  by (cases questions)
     (auto simp: enhance_with_llm_def time_sleep_def split: option.splits sum.splits)

text \<open>
  C7: a response that is \<open>UNRELATED\<close> should exclude its question. The loop body
  does leave such a response out of the enhanced list, but the pause that ends the body
  raises \<open>NameError\<close>, and the handler returns the questions it was given: for the
  topic \<open>Linear Algebra\<close>, the question \<open>Solve the system of tax rules?\<close> and the
  response \<open>UNRELATED\<close>, the question is still in the result.
\<close>

theorem enhance_unrelated_not_excluded:
  "strip ''UNRELATED'' = ''UNRELATED''
   \<and> enhance_step ''UNRELATED'' [] = []
   \<and> enhance_loop time_sleep (\<lambda>tp q. Inr ''UNRELATED'') ''Linear Algebra''
        [''Solve the system of tax rules?''] [] = Inl NameError
   \<and> enhance_with_llm (Some (\<lambda>tp q. Inr ''UNRELATED''))
        [''Solve the system of tax rules?''] ''Linear Algebra''
      = [''Solve the system of tax rules?'']"
  by code_simp

section \<open>Downloading a paper\<close>





lemma download_paper_request_fails:
  "file_path paper \<notin> dom (files fs) \<Longrightarrow> get (info_url paper) = Inl e \<Longrightarrow>
     download_paper get fs paper = (None, fs)"
  by (auto simp: download_paper_def download_try_def)




end
